theory Spec2Isabelle
  imports Complex_Main "HOL-Library.Word"
begin

unbundle bit_operations_syntax

section \<open>Python values shared by the scripts\<close>

text \<open>
  Python's slice \<open>xs[:k]\<close>: a non-negative \<open>k\<close> keeps the first \<open>k\<close> elements, a
  negative \<open>k\<close> counts the stop position from the end, and either stop is clamped to the
  list.
\<close>

definition py_slice_to :: "'a list \<Rightarrow> int \<Rightarrow> 'a list" where
  "py_slice_to xs k =
     (if k < 0 then take (nat (int (length xs) + k)) xs else take (nat k) xs)"

section \<open>get_features.py: trimming a geometry for display\<close>

text \<open>
  \<open>truncate_geometry\<close> takes \<open>geom: Any\<close> and only asks whether the value is a
  \<open>list\<close>. A geometry value is therefore either a list of geometry values or any other
  Python value, which stays opaque (\<open>NonList\<close>).
\<close>

datatype 'a geom = NonList 'a | PyList "'a geom list"

lemma py_slice_to_subset: "set (py_slice_to xs k) \<subseteq> set xs"
  by (simp add: py_slice_to_def set_take_subset)

lemma geom_size_member:
  fixes item :: "'a geom"
  shows "item \<in> set items \<Longrightarrow> size item < Suc (size_list size items)"
  by (induction items) auto

function truncate_geometry :: "'a geom \<Rightarrow> int \<Rightarrow> 'a geom" where
  "truncate_geometry (NonList v) max_coords = NonList v"
| "truncate_geometry (PyList items) max_coords =
     PyList (map (\<lambda>item. truncate_geometry item max_coords) (py_slice_to items max_coords))"
  by pat_completeness auto
termination
proof (relation "measure (\<lambda>(g, k). size g)")
  show "wf (measure (\<lambda>(g, k). size g))"
    by simp
next
  fix items :: "'a geom list" and max_coords :: int and item :: "'a geom"
  assume "item \<in> set (py_slice_to items max_coords)"
  then have "item \<in> set items"
    using py_slice_to_subset [of items max_coords] by (rule subsetD [rotated])
  then have "size item < Suc (size_list size items)"
    by (rule geom_size_member)
  then show "((item, max_coords), PyList items, max_coords) \<in> measure (\<lambda>(g, k). size g)"
    by simp
qed

text \<open>Every list of a geometry value, at any depth, has at most \<open>k\<close> elements.\<close>

fun lists_within :: "nat \<Rightarrow> 'a geom \<Rightarrow> bool" where
  "lists_within k (NonList v) = True"
| "lists_within k (PyList items) = (length items \<le> k \<and> list_all (lists_within k) items)"

subsection \<open>Properties of \<open>truncate_geometry\<close>\<close>

lemma py_slice_to_nonneg: "0 \<le> k \<Longrightarrow> py_slice_to xs k = take (nat k) xs"
  by (simp add: py_slice_to_def)

lemma truncate_geometry_within:
  "0 \<le> n \<Longrightarrow> lists_within (nat n) (truncate_geometry g n)"
proof (induction g n rule: truncate_geometry.induct)
  case (1 v max_coords)
  show ?case by simp
next
  case (2 items max_coords)
  have len: "length (py_slice_to items max_coords) \<le> nat max_coords"
    using 2 by (simp add: py_slice_to_nonneg)
  have "\<forall>x \<in> set (py_slice_to items max_coords).
          lists_within (nat max_coords) (truncate_geometry x max_coords)"
    using 2 by blast
  then show ?case using len
    by (simp add: list_all_iff)
qed

text \<open>
  Claim C6. For every nested geometry value \<open>g\<close> and every \<open>max_coords = n \<ge> 0\<close>:
  every list inside \<open>truncate_geometry g n\<close> has at most \<open>n\<close> elements; a list is
  mapped to the list of the truncations of its first \<open>n\<close> elements, in order; and a
  value that is not a list comes back unchanged.
\<close>

theorem truncate_geometry_spec:
  "0 \<le> n \<Longrightarrow>
     lists_within (nat n) (truncate_geometry g n)
     \<and> truncate_geometry (PyList items) n =
         PyList (map (\<lambda>item. truncate_geometry item n) (take (nat n) items))
     \<and> truncate_geometry (NonList v) n = NonList v"
  by (simp add: truncate_geometry_within py_slice_to_nonneg)

theorem truncate_geometry_spec_witness:
  "(0::int) \<le> 2
   \<and> lists_within (nat 2)
        (truncate_geometry
          (PyList [PyList [NonList (1::int), NonList 2, NonList 3], NonList 7, NonList 8]) 2)
   \<and> truncate_geometry (PyList [PyList [NonList (1::int), NonList 2, NonList 3], NonList 7, NonList 8]) 2
       = PyList [PyList [NonList 1, NonList 2], NonList 7]
   \<and> truncate_geometry (NonList (5::int)) 2 = NonList 5"
  using truncate_geometry_spec
    [of 2 "PyList [PyList [NonList (1::int), NonList 2, NonList 3], NonList 7, NonList 8]"
        "[PyList [NonList (1::int), NonList 2, NonList 3], NonList 7, NonList 8]" 5]
  by (simp add: py_slice_to_def)

section \<open>get_images_raw.py: downloading the thumbnails\<close>

text \<open>Decimal text of a number, as an f-string prints an \<open>int\<close>.\<close>

function str_nat :: "nat \<Rightarrow> string" where
  "str_nat n =
     (if n < 10 then [''0123456789'' ! n]
      else str_nat (n div 10) @ [''0123456789'' ! (n mod 10)])"
  by pat_completeness auto
termination
  by (relation "measure id") auto

declare str_nat.simps [simp del]

definition str_int :: "int \<Rightarrow> string" where
  "str_int i = (if i < 0 then CHR ''-'' # str_nat (nat (- i)) else str_nat (nat i))"

text \<open>
  \<open>iterate_urls\<close> is a generator over a \<open>seen\<close> set; the list of the values it yields
  is computed here, with the set threaded through the loop.
\<close>

fun iterate_urls_from :: "string set \<Rightarrow> string list \<Rightarrow> string list" where
  "iterate_urls_from seen [] = []"
| "iterate_urls_from seen (url # urls) =
     (if url \<in> seen then iterate_urls_from seen urls
      else url # iterate_urls_from (insert url seen) urls)"

definition iterate_urls :: "string list \<Rightarrow> string list" where
  "iterate_urls urls = iterate_urls_from {} urls"

text \<open>
  The HTTP response of \<open>requests\<close>, as far as the scripts read it (\<open>headers_repr\<close> is
  \<open>dict(response.headers)\<close> as printed, \<open>content_type\<close> the \<open>Content-Type\<close> header,
  \<open>resp_text\<close> the body as text, \<open>resp_content\<close> the body as bytes). The network and the file
  system are a world \<open>'w\<close>; what they answer is not part of the repository, so the two
  operations on them are parameters:
  \<^item> \<open>session_get\<close> is \<open>session.get(url, headers, timeout, stream=True)\<close>: it returns a
    response, or raises (connection refused, timeout, ...) with the text given;
  \<^item> \<open>save_response\<close> is the rest of \<open>download_image\<close> after the status check: the file
    name from the URL and the content type, \<open>mkdir\<close> and the chunked write; it returns the
    path written, or raises with the text given.
\<close>

record response =
  status_code :: nat
  resp_reason :: string
  headers_repr :: string
  content_type :: "string option"
  resp_text :: string
  resp_content :: "8 word list"

record 'w http_env =
  session_get :: "'w \<Rightarrow> string \<Rightarrow> 'w \<times> (string + response)"
  save_response :: "'w \<Rightarrow> string \<Rightarrow> response \<Rightarrow> 'w \<times> (string + string)"

text \<open>
  The state of \<open>main\<close>: the world, the two counters of the loop, what was printed, and
  \<open>requested\<close>, a log of each URL handed to \<open>session.get\<close> (not a variable of the
  script: it records the requests so that they can be counted).
\<close>

record 'w dl_state =
  world :: 'w
  requested :: "string list"
  successes :: nat
  failures :: "string list"
  stdout :: "string list"
  stderr :: "string list"

text \<open>\<open>resp.raise_for_status()\<close> raises for a 4xx or 5xx status.\<close>

definition is_http_error :: "nat \<Rightarrow> bool" where
  "is_http_error code = (400 \<le> code \<and> code < 600)"

definition download_image ::
  "'w http_env \<Rightarrow> 'w dl_state \<Rightarrow> string \<Rightarrow> 'w dl_state \<times> (string + string \<times> nat)" where
  "download_image env s url =
     (let s1 = s\<lparr>requested := requested s @ [url]\<rparr> in
      case session_get env (world s1) url of
        (w1, Inl reason) \<Rightarrow> (s1\<lparr>world := w1\<rparr>, Inl reason)
      | (w1, Inr resp) \<Rightarrow>
          if is_http_error (status_code resp)
          then (s1\<lparr>world := w1\<rparr>,
                Inl (''HTTP '' @ str_nat (status_code resp) @ '' for '' @ url @ '': ''
                     @ take 500 (resp_text resp)))
          else (case save_response env w1 url resp of
                  (w2, Inl reason) \<Rightarrow> (s1\<lparr>world := w2\<rparr>, Inl reason)
                | (w2, Inr out_path) \<Rightarrow> (s1\<lparr>world := w2\<rparr>, Inr (out_path, status_code resp))))"

text \<open>
  The \<open>for idx, url in enumerate(iterate_urls(urls), start=1)\<close> loop of \<open>main\<close>: one
  call of \<open>download_image\<close> for each URL; an exception is printed and the URL appended
  to \<open>failures\<close>, and the loop goes on to the next URL.
\<close>

fun download_loop :: "'w http_env \<Rightarrow> nat \<Rightarrow> string list \<Rightarrow> 'w dl_state \<Rightarrow> 'w dl_state" where
  "download_loop env idx [] s = s"
| "download_loop env idx (url # rest) s =
     (case download_image env s url of
        (s1, Inr (out_path, status)) \<Rightarrow>
          download_loop env (Suc idx) rest
            (s1\<lparr>stdout := stdout s1 @
                   [''['' @ str_nat idx @ ''] HTTP '' @ str_nat status @ '' -> '' @ out_path],
                 successes := successes s1 + 1\<rparr>)
      | (s1, Inl reason) \<Rightarrow>
          download_loop env (Suc idx) rest
            (s1\<lparr>stderr := stderr s1 @
                   [''['' @ str_nat idx @ ''] Failed: '' @ url, ''  Reason: '' @ reason],
                 failures := failures s1 @ [url]\<rparr>))"

text \<open>
  \<open>main\<close> after the URL list is loaded: the optional \<open>--limit\<close> slice, the fresh
  counters, the loop, and the closing report.
\<close>

definition apply_limit :: "int option \<Rightarrow> string list \<Rightarrow> string list" where
  "apply_limit limit urls = (case limit of None \<Rightarrow> urls | Some k \<Rightarrow> py_slice_to urls k)"

definition main_downloads ::
  "'w http_env \<Rightarrow> string \<Rightarrow> int option \<Rightarrow> string list \<Rightarrow> 'w \<Rightarrow> 'w dl_state" where
  "main_downloads env output_dir limit urls w =
     (let urls1 = apply_limit limit urls;
          s0 = \<lparr>world = w, requested = [], successes = 0, failures = [],
                stdout = [], stderr = []\<rparr>;
          s1 = download_loop env 1 (iterate_urls urls1) s0;
          s2 = s1\<lparr>stdout := stdout s1 @
                 ['''', ''Done. Success: '' @ str_nat (successes s1) @ '' | Failed: ''
                       @ str_nat (length (failures s1)) @ '' | Output dir: '' @ output_dir]\<rparr>
      in if failures s2 \<noteq> []
         then s2\<lparr>stderr := stderr s2 @ ''Failed URLs (not downloaded):''
                    # map (\<lambda>url. ''  '' @ url) (failures s2)\<rparr>
         else s2)"

text \<open>The position of the first occurrence of \<open>u\<close> in \<open>urls\<close>.\<close>

definition first_index :: "'a list \<Rightarrow> 'a \<Rightarrow> nat" where
  "first_index urls u = length (takeWhile (\<lambda>x. x \<noteq> u) urls)"


subsection \<open>The URLs yielded by \<open>iterate_urls\<close>\<close>

lemma iterate_urls_from_set: "set (iterate_urls_from seen urls) = set urls - seen"
  by (induction urls arbitrary: seen) auto

lemma iterate_urls_from_distinct: "distinct (iterate_urls_from seen urls)"
  by (induction urls arbitrary: seen) (auto simp: iterate_urls_from_set)

lemma first_index_Cons:
  "first_index (x # xs) u = (if x = u then 0 else Suc (first_index xs u))"
  by (simp add: first_index_def)

lemma iterate_urls_from_order:
  "sorted_wrt (\<lambda>u v. first_index urls u < first_index urls v) (iterate_urls_from seen urls)"
proof (induction urls arbitrary: seen)
  case Nil
  show ?case by simp
next
  case (Cons url urls)
  have shift: "sorted_wrt (\<lambda>u v. first_index (url # urls) u < first_index (url # urls) v)
                 (iterate_urls_from S urls)" if "url \<in> S" for S
  proof (rule sorted_wrt_mono_rel [OF _ Cons.IH [of S]])
    fix u v
    assume "u \<in> set (iterate_urls_from S urls)" "v \<in> set (iterate_urls_from S urls)"
      and "first_index urls u < first_index urls v"
    then show "first_index (url # urls) u < first_index (url # urls) v"
      using that by (auto simp: iterate_urls_from_set first_index_Cons)
  qed
  show ?case
  proof (cases "url \<in> seen")
    case True
    then show ?thesis using shift [of seen] by simp
  next
    case False
    have "\<forall>v \<in> set (iterate_urls_from (insert url seen) urls).
            first_index (url # urls) url < first_index (url # urls) v"
      by (auto simp: iterate_urls_from_set first_index_Cons)
    then show ?thesis using False shift [of "insert url seen"] by simp
  qed
qed

subsection \<open>What the loop requests and records\<close>

lemma download_image_requested:
  "requested (fst (download_image env s url)) = requested s @ [url]"
  by (simp add: download_image_def Let_def split: prod.splits sum.splits)


lemma download_loop_requested:
  "requested (download_loop env idx urls s) = requested s @ urls"
proof (induction urls arbitrary: idx s)
  case Nil
  show ?case by simp
next
  case (Cons url rest)
  show ?case
    using download_image_requested [of env s url]
    by (auto simp: Cons.IH split: prod.splits sum.splits)
qed



lemma main_downloads_requested:
  "requested (main_downloads env output_dir limit urls w) = iterate_urls (apply_limit limit urls)"
  by (simp add: main_downloads_def Let_def download_loop_requested)





text \<open>
  Claim C9. For every list of URLs, \<open>iterate_urls\<close> yields each distinct URL of the list
  exactly once (no repetition, and the same set of URLs), ordered by the position of the
  first occurrence in the input; so the URLs that \<open>main\<close> requests, with or without
  \<open>--limit\<close>, contain no URL twice.
\<close>

theorem iterate_urls_first_occurrences:
  "distinct (iterate_urls urls)
   \<and> set (iterate_urls urls) = set urls
   \<and> sorted_wrt (\<lambda>u v. first_index urls u < first_index urls v) (iterate_urls urls)
   \<and> distinct (requested (main_downloads env output_dir limit urls w))"
  by (simp add: iterate_urls_def iterate_urls_from_distinct iterate_urls_from_set
      iterate_urls_from_order main_downloads_requested)




section \<open>convert_bins_to_png.py: extracting the images\<close>




text \<open>\<open>s.split(sep)\<close> for a one-character separator: the pieces between the separators.\<close>

fun split_on :: "char \<Rightarrow> string \<Rightarrow> string list" where
  "split_on sep [] = [[]]"
| "split_on sep (c # cs) =
     (if c = sep then [] # split_on sep cs
      else (case split_on sep cs of
              [] \<Rightarrow> [[c]]
            | piece # pieces \<Rightarrow> (c # piece) # pieces))"
















subsection \<open>The file names of \<open>decode_entry\<close>\<close>






















section \<open>get_features.py: the tile decoder behind \<open>decode_tile\<close>\<close>

text \<open>
  \<open>decode_tile\<close> returns \<open>mapbox_vector_tile.decode(tile_bytes)\<close>. The decoder is not
  among the repository's files; its wire reader and its top level are modelled from the
  specification, sections 4.1, 4.5 and 7.
\<close>

text \<open>Modelled from the spec: the error kinds of section 7 (no error type is in the source).\<close>

datatype error_kind =
    TruncatedInput | VarintOverflow | UnknownWireType | MalformedString
  | MalformedLayer | MalformedFeature | MalformedGeometry

text \<open>
  Modelled from the spec: the structured error of section 6, "error kind, human-readable
  message, and the byte offset at which decoding failed" (no error type is in the source).
\<close>

record decode_error =
  kind :: error_kind
  message :: string
  offset :: nat

text \<open>
  Modelled from the spec: \<open>WireReader.read_varint\<close> (section 4.1; no wire reader is in the
  source). It "reads 1-10 bytes, each contributing 7 bits, continuation indicated by the
  high bit"; it fails with \<open>TruncatedInput\<close> when the buffer ends before a terminating
  byte and with \<open>VarintOverflow\<close> when ten bytes were read and the last one still asks
  for more. The result is an unsigned 64-bit integer; the reader is the buffer with the
  cursor \<open>pos\<close>, and a successful read returns the new cursor. An error is reported
  with the cursor at which the read began.
\<close>

fun varint_loop ::
  "nat \<Rightarrow> 8 word list \<Rightarrow> nat \<Rightarrow> nat \<Rightarrow> 64 word \<Rightarrow> error_kind + 64 word \<times> nat" where
  "varint_loop 0 buf pos i acc = Inl VarintOverflow"
| "varint_loop (Suc budget) buf pos i acc =
     (if length buf \<le> pos then Inl TruncatedInput
      else (let b = buf ! pos;
                acc1 = acc OR push_bit (7 * i) (ucast (b AND 0x7F))
            in if b AND 0x80 = 0 then Inr (acc1, pos + 1)
               else varint_loop budget buf (pos + 1) (i + 1) acc1))"

definition read_varint :: "8 word list \<Rightarrow> nat \<Rightarrow> error_kind \<times> nat + 64 word \<times> nat" where
  "read_varint buf pos =
     (case varint_loop 10 buf pos 0 0 of
        Inl k \<Rightarrow> Inl (k, pos)
      | Inr r \<Rightarrow> Inr r)"

text \<open>
  Modelled from the spec: the varint encoding that section 8 calls \<open>encode\<close> (no encoder
  is in the source), after the glossary: "variable-length integer encoding using 7 bits
  per byte plus a continuation bit", least significant group first.
\<close>

function encode_varint :: "64 word \<Rightarrow> 8 word list" where
  "encode_varint v =
     (if v < 0x80 then [ucast v]
      else (ucast (v AND 0x7F) OR 0x80) # encode_varint (drop_bit 7 v))"
  by pat_completeness auto
termination
proof (relation "measure unat")
  show "wf (measure (unat :: 64 word \<Rightarrow> nat))" by simp
next
  fix v :: "64 word"
  assume "\<not> v < 0x80"
  then have "128 \<le> unat v"
    by (simp add: word_less_nat_alt)
  then have "unat v div 2 ^ 7 < unat v"
    by simp
  then show "(drop_bit 7 v, v) \<in> measure unat"
    by (simp add: drop_bit_eq_div unat_div)
qed

declare encode_varint.simps [simp del]

text \<open>
  Modelled from the spec: \<open>read_tag\<close>, \<open>read_length_delimited\<close> and \<open>skip_field\<close> of
  section 4.1 (not in the source). The wire types are numbered as in Protocol Buffers
  (0 varint, 1 fixed64, 2 length-delimited, 5 fixed32).
\<close>

datatype wire_type = Varint | Fixed64 | LengthDelimited | Fixed32

definition wire_type_of :: "64 word \<Rightarrow> wire_type option" where
  "wire_type_of w =
     (if w = 0 then Some Varint else if w = 1 then Some Fixed64
      else if w = 2 then Some LengthDelimited else if w = 5 then Some Fixed32 else None)"

definition read_tag ::
  "8 word list \<Rightarrow> nat \<Rightarrow> error_kind \<times> nat + (nat \<times> wire_type) \<times> nat" where
  "read_tag buf pos =
     (case read_varint buf pos of
        Inl e \<Rightarrow> Inl e
      | Inr (v, pos1) \<Rightarrow>
          (case wire_type_of (v AND 0x7) of
             None \<Rightarrow> Inl (UnknownWireType, pos)
           | Some wt \<Rightarrow> Inr ((unat (drop_bit 3 v), wt), pos1)))"

definition read_length_delimited ::
  "8 word list \<Rightarrow> nat \<Rightarrow> error_kind \<times> nat + 8 word list \<times> nat" where
  "read_length_delimited buf pos =
     (case read_varint buf pos of
        Inl e \<Rightarrow> Inl e
      | Inr (n, pos1) \<Rightarrow>
          if length buf < pos1 + unat n then Inl (TruncatedInput, pos)
          else Inr (take (unat n) (drop pos1 buf), pos1 + unat n))"

definition skip_fixed :: "nat \<Rightarrow> 8 word list \<Rightarrow> nat \<Rightarrow> error_kind \<times> nat + nat" where
  "skip_fixed width buf pos =
     (if length buf < pos + width then Inl (TruncatedInput, pos) else Inr (pos + width))"

definition skip_field :: "8 word list \<Rightarrow> nat \<Rightarrow> wire_type \<Rightarrow> error_kind \<times> nat + nat" where
  "skip_field buf pos wt =
     (case wt of
        Varint \<Rightarrow> (case read_varint buf pos of Inl e \<Rightarrow> Inl e | Inr (v, pos1) \<Rightarrow> Inr pos1)
      | LengthDelimited \<Rightarrow>
          (case read_length_delimited buf pos of Inl e \<Rightarrow> Inl e | Inr (bs, pos1) \<Rightarrow> Inr pos1)
      | Fixed32 \<Rightarrow> skip_fixed 4 buf pos
      | Fixed64 \<Rightarrow> skip_fixed 8 buf pos)"

subsection \<open>The cursor moves forward\<close>

lemma varint_loop_advances:
  "varint_loop budget buf pos i acc = Inr (v, pos1) \<Longrightarrow> pos < pos1 \<and> pos1 \<le> length buf"
proof (induction budget arbitrary: pos i acc)
  case 0
  then show ?case by simp
next
  case (Suc budget)
  show ?case
  proof (cases "buf ! pos AND 0x80 = 0")
    case True
    then show ?thesis
      using Suc.prems by (auto simp: Let_def split: if_splits)
  next
    case False
    then have "varint_loop budget buf (pos + 1) (i + 1)
        (acc OR push_bit (7 * i) (ucast (buf ! pos AND 0x7F))) = Inr (v, pos1)"
      using Suc.prems by (auto simp: Let_def split: if_splits)
    then have "pos + 1 < pos1 \<and> pos1 \<le> length buf"
      by (rule Suc.IH)
    then show ?thesis by simp
  qed
qed

lemma read_varint_advances:
  "read_varint buf pos = Inr (v, pos1) \<Longrightarrow> pos < pos1 \<and> pos1 \<le> length buf"
  using varint_loop_advances [of 10 buf pos 0 0 v pos1]
  by (auto simp: read_varint_def split: sum.splits)

lemma read_tag_advances:
  "read_tag buf pos = Inr (t, pos1) \<Longrightarrow> pos < pos1 \<and> pos1 \<le> length buf"
  by (auto simp: read_tag_def split: sum.splits option.splits dest: read_varint_advances)

lemma read_length_delimited_advances:
  "read_length_delimited buf pos = Inr (bs, pos1) \<Longrightarrow> pos < pos1 \<and> pos1 \<le> length buf"
  by (auto simp: read_length_delimited_def split: sum.splits if_splits
      dest!: read_varint_advances)

lemma skip_field_advances:
  "skip_field buf pos wt = Inr pos1 \<Longrightarrow> pos < pos1 \<and> pos1 \<le> length buf"
  by (cases wt)
     (auto simp: skip_field_def skip_fixed_def split: sum.splits if_splits
       dest!: read_varint_advances read_length_delimited_advances)

subsection \<open>The top level of the decoder\<close>

text \<open>
  A Python \<open>dict\<close> in insertion order, as the list of its items: \<open>d[k] = v\<close> replaces
  the value of a key that is present, where it stands, and appends a new key at the end.
\<close>

fun dict_set :: "('k \<times> 'v) list \<Rightarrow> 'k \<Rightarrow> 'v \<Rightarrow> ('k \<times> 'v) list" where
  "dict_set [] k v = [(k, v)]"
| "dict_set ((k0, v0) # d) k v =
     (if k0 = k then (k, v) # d else (k0, v0) # dict_set d k v)"

text \<open>
  Modelled from the spec: \<open>TileDecoder\<close> (section 4.5; not in the source). It "iterates
  tagged fields of the outer buffer via WireReader; the only recognized field is repeated
  length-delimited Layer (field number fixed by the format)", number 3 in the vector tile
  format; "each occurrence is handed to LayerDecoder; results appended in encounter
  order"; any other field is skipped. \<open>LayerDecoder\<close> (section 4.4) is the parameter
  \<open>layer_decoder\<close>: from the bytes of one layer it returns the layer's name with its
  data, or an error kind with an offset inside the layer.
\<close>

function tile_fields ::
  "(8 word list \<Rightarrow> error_kind \<times> nat + string \<times> 'l) \<Rightarrow> 8 word list \<Rightarrow> nat
     \<Rightarrow> (string \<times> 'l) list \<Rightarrow> error_kind \<times> nat + (string \<times> 'l) list" where
  "tile_fields layer_decoder buf pos layers =
     (if length buf \<le> pos then Inr layers
      else (case read_tag buf pos of
              Inl e \<Rightarrow> Inl e
            | Inr ((field_number, wt), pos1) \<Rightarrow>
                if field_number = 3 \<and> wt = LengthDelimited
                then (case read_length_delimited buf pos1 of
                        Inl e \<Rightarrow> Inl e
                      | Inr (layer_bytes, pos2) \<Rightarrow>
                          (case layer_decoder layer_bytes of
                             Inl (k, rel) \<Rightarrow> Inl (k, pos2 - length layer_bytes + rel)
                           | Inr layer \<Rightarrow>
                               tile_fields layer_decoder buf pos2 (layers @ [layer])))
                else (case skip_field buf pos1 wt of
                        Inl e \<Rightarrow> Inl e
                      | Inr pos2 \<Rightarrow> tile_fields layer_decoder buf pos2 layers)))"
  by pat_completeness auto
termination
  apply (relation "measure (\<lambda>(ld, buf, pos, layers). length buf - pos)")
    apply simp
   apply (auto dest!: read_tag_advances read_length_delimited_advances skip_field_advances)
  done

declare tile_fields.simps [simp del]

definition tile_decoder ::
  "(8 word list \<Rightarrow> error_kind \<times> nat + string \<times> 'l) \<Rightarrow> 8 word list
     \<Rightarrow> error_kind \<times> nat + (string \<times> 'l) list" where
  "tile_decoder layer_decoder buf = tile_fields layer_decoder buf 0 []"

text \<open>
  Modelled from the spec: \<open>mapbox_vector_tile.decode\<close>, the entry point that
  \<open>decode_tile\<close> calls (not in the source). It runs \<open>TileDecoder\<close>; a failure becomes
  the structured error of section 6, whose message is the parameter \<open>diagnostic\<close>. The
  shape of the result is the source's: \<open>decode_tile\<close> is annotated \<open>Dict[str, Any]\<close> and
  its consumers read \<open>for layer_name, layer_data in tile.items()\<close>, so the decoded layers
  are stored in a dict under their names, in encounter order.
\<close>

definition dict_of_layers :: "(string \<times> 'l) list \<Rightarrow> (string \<times> 'l) list" where
  "dict_of_layers layers = foldl (\<lambda>d (name, layer). dict_set d name layer) [] layers"

definition mvt_decode ::
  "(8 word list \<Rightarrow> error_kind \<times> nat + string \<times> 'l) \<Rightarrow> (error_kind \<Rightarrow> nat \<Rightarrow> string)
     \<Rightarrow> 8 word list \<Rightarrow> decode_error + (string \<times> 'l) list" where
  "mvt_decode layer_decoder diagnostic buf =
     (case tile_decoder layer_decoder buf of
        Inl (k, off) \<Rightarrow> Inl \<lparr>kind = k, message = diagnostic k off, offset = off\<rparr>
      | Inr layers \<Rightarrow> Inr (dict_of_layers layers))"

text \<open>\<open>decode_tile\<close> itself: it hands the bytes to the library's \<open>decode\<close>.\<close>

definition decode_tile :: "(8 word list \<Rightarrow> 'r) \<Rightarrow> 8 word list \<Rightarrow> 'r" where
  "decode_tile decode tile_bytes = decode tile_bytes"

section \<open>get_features.py: what is done with a decoded tile\<close>

text \<open>
  The consumers read a tile with \<open>tile.items()\<close>, \<open>layer_data.get("features", [])\<close>,
  \<open>feature.get("type")\<close>, \<open>feature.get("properties", {})\<close> and
  \<open>feature.get("geometry")\<close>. A value that is read but only printed is an atom:
  \<open>None\<close> (also what \<open>get\<close> answers for a missing key) or another value \<open>'v\<close>.
  How Python prints such a value, and whether it counts as true, are parameters.
\<close>

datatype 'v atom = PyNone | Val 'v

record 'v feature =
  ftype :: "'v atom"
  properties :: "'v option"
  geometry :: "'v atom geom"

record 'v layer_data =
  features :: "'v feature list option"

record 'v printer =
  str_value :: "'v \<Rightarrow> string"
  repr_value :: "'v \<Rightarrow> string"
  json_dumps :: "'v \<Rightarrow> string"
  truthy_value :: "'v \<Rightarrow> bool"

fun join :: "string \<Rightarrow> string list \<Rightarrow> string" where
  "join sep [] = []"
| "join sep [x] = x"
| "join sep (x # y # ys) = x @ sep @ join sep (y # ys)"

fun repr_atom :: "'v printer \<Rightarrow> 'v atom \<Rightarrow> string" where
  "repr_atom pr PyNone = ''None''"
| "repr_atom pr (Val v) = repr_value pr v"

fun repr_geom :: "'v printer \<Rightarrow> 'v atom geom \<Rightarrow> string" where
  "repr_geom pr (NonList a) = repr_atom pr a"
| "repr_geom pr (PyList items) = ''['' @ join '', '' (map (repr_geom pr) items) @ '']''"

text \<open>\<open>f"{x}"\<close>: \<open>str(x)\<close>, which for a list is its \<open>repr\<close>.\<close>

fun str_atom :: "'v printer \<Rightarrow> 'v atom \<Rightarrow> string" where
  "str_atom pr PyNone = ''None''"
| "str_atom pr (Val v) = str_value pr v"

fun str_geom :: "'v printer \<Rightarrow> 'v atom geom \<Rightarrow> string" where
  "str_geom pr (NonList a) = str_atom pr a"
| "str_geom pr (PyList items) = repr_geom pr (PyList items)"

text \<open>
  The state of a consumer: the tile it was handed, and the lines printed so far. The
  tile is part of the state, so that what a consumer does to it is part of its result.
\<close>

record 'v py_state =
  tile :: "(string \<times> 'v layer_data) list"
  console :: "string list"

definition features_of :: "'v layer_data \<Rightarrow> 'v feature list" where
  "features_of layer_data = (case features layer_data of None \<Rightarrow> [] | Some fs \<Rightarrow> fs)"

text \<open>The sample shown by \<open>summarize_layers\<close>: the first element of a non-empty list,
  a true value that is not a list as it is, and \<open>None\<close> otherwise.\<close>

fun first_geom :: "'v printer \<Rightarrow> 'v atom geom \<Rightarrow> 'v atom geom" where
  "first_geom pr (PyList []) = NonList PyNone"
| "first_geom pr (PyList (x # xs)) = x"
| "first_geom pr (NonList PyNone) = NonList PyNone"
| "first_geom pr (NonList (Val v)) = (if truthy_value pr v then NonList (Val v) else NonList PyNone)"

definition props_text :: "'v printer \<Rightarrow> 'v feature \<Rightarrow> string" where
  "props_text pr feature =
     (case properties feature of None \<Rightarrow> ''{}'' | Some props \<Rightarrow> json_dumps pr props)"

fun summarize_features :: "'v printer \<Rightarrow> nat \<Rightarrow> 'v feature list \<Rightarrow> string list" where
  "summarize_features pr idx [] = []"
| "summarize_features pr idx (feature # rest) =
     (''  Feature '' @ str_nat idx @ '': type='' @ str_atom pr (ftype feature)
        @ '' sample_geom='' @ str_geom pr (first_geom pr (geometry feature))
        @ '' properties='' @ props_text pr feature)
     # summarize_features pr (Suc idx) rest"

definition omitted_line :: "'v feature list \<Rightarrow> int \<Rightarrow> string list" where
  "omitted_line feats max_features =
     (if int (length feats) > max_features
      then [''  ... '' @ str_int (int (length feats) - max_features)
              @ '' more features omitted ...'']
      else [])"

definition summarize_layer :: "'v printer \<Rightarrow> int \<Rightarrow> string \<times> 'v layer_data \<Rightarrow> string list" where
  "summarize_layer pr max_features item =
     (case item of (layer_name, layer_data) \<Rightarrow>
        (let feats = features_of layer_data
         in ['''', ''Layer: '' @ layer_name @ '' | feature count: '' @ str_nat (length feats)]
            @ summarize_features pr 1 (py_slice_to feats max_features)
            @ omitted_line feats max_features))"

fun summarize_loop ::
  "'v printer \<Rightarrow> int \<Rightarrow> (string \<times> 'v layer_data) list \<Rightarrow> 'v py_state \<Rightarrow> 'v py_state" where
  "summarize_loop pr max_features [] s = s"
| "summarize_loop pr max_features (item # items) s =
     summarize_loop pr max_features items
       (s\<lparr>console := console s @ summarize_layer pr max_features item\<rparr>)"

definition summarize_layers :: "'v printer \<Rightarrow> int \<Rightarrow> 'v py_state \<Rightarrow> 'v py_state" where
  "summarize_layers pr max_features s =
     (if tile s = [] then s\<lparr>console := console s @ [''No layers found in the tile.'']\<rparr>
      else summarize_loop pr max_features (tile s) s)"

fun geometry_features :: "'v printer \<Rightarrow> int \<Rightarrow> nat \<Rightarrow> 'v feature list \<Rightarrow> string list" where
  "geometry_features pr max_coords idx [] = []"
| "geometry_features pr max_coords idx (feature # rest) =
     (''  Feature '' @ str_nat idx @ '': type='' @ str_atom pr (ftype feature)
        @ '' geometry='' @ str_geom pr (truncate_geometry (geometry feature) max_coords))
     # geometry_features pr max_coords (Suc idx) rest"

definition geometry_layer ::
  "'v printer \<Rightarrow> int \<Rightarrow> int \<Rightarrow> string \<times> 'v layer_data \<Rightarrow> string list" where
  "geometry_layer pr max_features max_coords item =
     (case item of (layer_name, layer_data) \<Rightarrow>
        (let feats = features_of layer_data
         in if feats = [] then []
            else ['''', ''Layer: '' @ layer_name]
                 @ geometry_features pr max_coords 1 (py_slice_to feats max_features)
                 @ omitted_line feats max_features))"

fun geometry_loop ::
  "'v printer \<Rightarrow> int \<Rightarrow> int \<Rightarrow> (string \<times> 'v layer_data) list \<Rightarrow> 'v py_state \<Rightarrow> 'v py_state" where
  "geometry_loop pr max_features max_coords [] s = s"
| "geometry_loop pr max_features max_coords (item # items) s =
     geometry_loop pr max_features max_coords items
       (s\<lparr>console := console s @ geometry_layer pr max_features max_coords item\<rparr>)"

definition print_geometries :: "'v printer \<Rightarrow> int \<Rightarrow> int \<Rightarrow> 'v py_state \<Rightarrow> 'v py_state" where
  "print_geometries pr max_features max_coords s =
     (if tile s = [] then s\<lparr>console := console s @ ['''', ''No geometries to display.'']\<rparr>
      else geometry_loop pr max_features max_coords (tile s)
             (s\<lparr>console := console s @
                  ['''', ''Geometries (max_features='' @ str_int max_features
                        @ '', max_coords='' @ str_int max_coords @ ''):'']\<rparr>))"


subsection \<open>\<open>truncate_geometry\<close> on list objects\<close>

text \<open>
  A Python list is an object that can be changed in place, and two values may share one.
  To say what \<open>truncate_geometry\<close> does to the lists it is given, the lists are put in
  a store: the list object at address \<open>a\<close> is the \<open>a\<close>-th entry, a list of references,
  and a new list is allocated at the end. \<open>truncate_geometry_obj\<close> is the function on
  that store: the slice \<open>geom[:max_coords]\<close> and the list built by the comprehension are
  new objects, a value that is not a list is returned as it is. \<open>depth\<close> is the number
  of nested calls Python still allows; when it is used up the result is \<open>None\<close>, for
  \<open>RecursionError\<close>.
\<close>

datatype 'v pyref = Atom "'v atom" | ListRef nat

fun map_st :: "('s \<Rightarrow> 'a \<Rightarrow> 's \<times> 'b option) \<Rightarrow> 's \<Rightarrow> 'a list \<Rightarrow> 's \<times> 'b list option" where
  "map_st f s [] = (s, Some [])"
| "map_st f s (x # xs) =
     (case f s x of
        (s1, None) \<Rightarrow> (s1, None)
      | (s1, Some y) \<Rightarrow>
          (case map_st f s1 xs of
             (s2, None) \<Rightarrow> (s2, None)
           | (s2, Some ys) \<Rightarrow> (s2, Some (y # ys))))"

definition list_at :: "'v pyref list list \<Rightarrow> nat \<Rightarrow> 'v pyref list" where
  "list_at st a = (if a < length st then st ! a else [])"

fun truncate_geometry_obj ::
  "nat \<Rightarrow> 'v pyref list list \<Rightarrow> 'v pyref \<Rightarrow> int \<Rightarrow> 'v pyref list list \<times> 'v pyref option" where
  "truncate_geometry_obj 0 st geom max_coords = (st, None)"
| "truncate_geometry_obj (Suc depth) st (Atom a) max_coords = (st, Some (Atom a))"
| "truncate_geometry_obj (Suc depth) st (ListRef addr) max_coords =
     (let trimmed = py_slice_to (list_at st addr) max_coords;
          st1 = st @ [trimmed]
      in case map_st (\<lambda>s item. truncate_geometry_obj depth s item max_coords) st1 trimmed of
           (st2, None) \<Rightarrow> (st2, None)
         | (st2, Some items) \<Rightarrow> (st2 @ [items], Some (ListRef (length st2))))"

text \<open>The value that a reference stands for: the nested lists read out of the store.\<close>

fun geom_of :: "nat \<Rightarrow> 'v pyref list list \<Rightarrow> 'v pyref \<Rightarrow> 'v atom geom option" where
  "geom_of 0 st r = None"
| "geom_of (Suc depth) st (Atom a) = Some (NonList a)"
| "geom_of (Suc depth) st (ListRef addr) =
     (if addr < length st
      then map_option PyList (those (map (geom_of depth st) (st ! addr)))
      else None)"

text \<open>\<open>st'\<close> has every object of \<open>st\<close>, unchanged, at its address.\<close>

definition extends :: "'a list \<Rightarrow> 'a list \<Rightarrow> bool" where
  "extends st st' \<longleftrightarrow> take (length st) st' = st"

section \<open>get_features.py: the request and \<open>main\<close>\<close>

text \<open>
  \<open>adjust_matched_filter\<close> is written with four functions of \<open>urllib.parse\<close>, which are
  not part of the repository and are parameters here: \<open>urlsplit\<close> (it raises
  \<open>ValueError\<close> on some strings, with the text given), \<open>parse_qsl\<close> with
  \<open>keep_blank_values=True\<close>, \<open>urlencode\<close> with \<open>doseq=True\<close>, and \<open>urlunsplit\<close>.
\<close>

record split_result =
  scheme :: string
  netloc :: string
  path :: string
  query :: string
  fragment :: string

record urllib =
  urlsplit :: "string \<Rightarrow> string + split_result"
  parse_qsl :: "string \<Rightarrow> (string \<times> string) list"
  urlencode :: "(string \<times> string) list \<Rightarrow> string"
  urlunsplit :: "split_result \<Rightarrow> string"

text \<open>\<open>f"matched IN ('{matched_choice}')"\<close>; the quote is character \<open>0x27\<close>.\<close>

definition matched_predicate :: "string \<Rightarrow> string" where
  "matched_predicate matched_choice =
     ''matched IN ('' @ [CHR 0x27] @ matched_choice @ [CHR 0x27] @ '')''"

definition adjust_matched_filter :: "urllib \<Rightarrow> string \<Rightarrow> string option \<Rightarrow> string + string" where
  "adjust_matched_filter lib url matched_choice =
     (case matched_choice of
        None \<Rightarrow> Inr url
      | Some choice \<Rightarrow>
          (case urlsplit lib url of
             Inl err \<Rightarrow> Inl err
           | Inr parsed \<Rightarrow>
               (let query_items = parse_qsl lib (query parsed);
                    query_items1 = filter (\<lambda>(k, v). k \<noteq> ''filters[0]'') query_items;
                    query_items2 =
                      (if choice \<noteq> ''any''
                       then query_items1 @ [(''filters[0]'', matched_predicate choice)]
                       else query_items1);
                    new_query = urlencode lib query_items2
                in Inr (urlunsplit lib
                         \<lparr>scheme = scheme parsed, netloc = netloc parsed, path = path parsed,
                          query = new_query, fragment = fragment parsed\<rparr>))))"

text \<open>
  An instance of the four functions for URLs without percent-escapes, to run
  \<open>adjust_matched_filter\<close> on an example.
\<close>

definition cut :: "char \<Rightarrow> string \<Rightarrow> string \<times> string" where
  "cut c s = (takeWhile (\<lambda>x. x \<noteq> c) s, drop 1 (dropWhile (\<lambda>x. x \<noteq> c) s))"

definition plain_urlsplit :: "string \<Rightarrow> string + split_result" where
  "plain_urlsplit u =
     (let (u1, frag) = cut CHR ''#'' u;
          (u2, q) = cut CHR ''?'' u1;
          (sch, rest) = (if CHR '':'' \<in> set u2 then cut CHR '':'' u2 else ([], u2));
          (net, pth) = (if take 2 rest = ''//''
                        then (takeWhile (\<lambda>x. x \<noteq> CHR ''/'') (drop 2 rest),
                              dropWhile (\<lambda>x. x \<noteq> CHR ''/'') (drop 2 rest))
                        else ([], rest))
      in Inr \<lparr>scheme = sch, netloc = net, path = pth, query = q, fragment = frag\<rparr>)"

definition plain_urlunsplit :: "split_result \<Rightarrow> string" where
  "plain_urlunsplit p =
     (if scheme p \<noteq> [] then scheme p @ '':'' else [])
     @ (if netloc p \<noteq> [] then ''//'' @ netloc p else [])
     @ path p
     @ (if query p \<noteq> [] then ''?'' @ query p else [])
     @ (if fragment p \<noteq> [] then ''#'' @ fragment p else [])"

definition plain_urllib :: urllib where
  "plain_urllib =
     \<lparr>urlsplit = plain_urlsplit,
      parse_qsl = (\<lambda>q. map (cut CHR ''='') (filter (\<lambda>seg. seg \<noteq> []) (split_on CHR ''&'' q))),
      urlencode = (\<lambda>items. join ''&'' (map (\<lambda>(k, v). k @ ''='' @ v) items)),
      urlunsplit = plain_urlunsplit\<rparr>"

text \<open>
  The exceptions that \<open>main\<close> tells apart: \<open>requests.HTTPError\<close> with its text, the
  error of the decoder, and any other exception with its text.
\<close>

datatype py_exception = HTTPError string | TileDecodeError decode_error | OtherError string

text \<open>
  \<open>fetch_tile\<close>. \<open>requests.get\<close> is a parameter: from the URL and the headers it returns
  a response or raises with the text given. The result is what was printed to standard
  output and to standard error, and the bytes of the body or the exception.
\<close>

definition request_headers :: "string option \<Rightarrow> string option \<Rightarrow> (string \<times> string) list" where
  "request_headers token origin =
     [(''Accept'', ''application/x-protobuf'')]
     @ (case token of None \<Rightarrow> [] | Some t \<Rightarrow>
          if t \<noteq> [] then [(''Authorization'', ''Bearer '' @ t)] else [])
     @ (case origin of None \<Rightarrow> [] | Some orig \<Rightarrow>
          if orig \<noteq> [] then [(''Origin'', orig)] else [])"

definition http_error_text :: "response \<Rightarrow> string \<Rightarrow> string" where
  "http_error_text resp url =
     str_nat (status_code resp)
     @ (if status_code resp < 500 then '' Client Error: '' else '' Server Error: '')
     @ resp_reason resp @ '' for url: '' @ url"

definition fetch_tile ::
  "(string \<Rightarrow> (string \<times> string) list \<Rightarrow> string + response)
     \<Rightarrow> string \<Rightarrow> string option \<Rightarrow> string option \<Rightarrow> bool
     \<Rightarrow> string list \<times> string list \<times> (py_exception + 8 word list)" where
  "fetch_tile requests_get url token origin debug_http =
     (case requests_get url (request_headers token origin) of
        Inl err \<Rightarrow> ([], [], Inl (OtherError err))
      | Inr resp \<Rightarrow>
          (let out = (if debug_http
                      then [''HTTP '' @ str_nat (status_code resp) @ '' '' @ resp_reason resp
                              @ '', Headers: '' @ headers_repr resp]
                      else [])
           in if is_http_error (status_code resp)
              then (out, [''Response body: '' @ resp_text resp],
                    Inl (HTTPError (http_error_text resp url)))
              else (out, [], Inr (resp_content resp))))"

text \<open>
  The command line of \<open>main\<close>, and what the script works with: \<open>urllib.parse\<close>,
  \<open>requests.get\<close>, the library's \<open>decode\<close>, the text \<open>str(exc)\<close> of a decoder error,
  and the printing of values.
\<close>

record args =
  a_url :: string
  a_max_features :: int
  a_token :: "string option"
  a_origin :: "string option"
  a_debug_http :: bool
  a_matched :: "string option"
  a_print_geometry :: bool
  a_geometry_max_features :: int
  a_geometry_max_coords :: int

record 'v features_env =
  url_lib :: urllib
  requests_get :: "string \<Rightarrow> (string \<times> string) list \<Rightarrow> string + response"
  decode :: "8 word list \<Rightarrow> decode_error + (string \<times> 'v layer_data) list"
  error_text :: "decode_error \<Rightarrow> string"
  value_printer :: "'v printer"

text \<open>What the caller of the script gets: the two output streams and the exit status
  (\<open>None\<close> when \<open>main\<close> returns without \<open>sys.exit\<close>).\<close>

record outcome =
  out_lines :: "string list"
  err_lines :: "string list"
  exit_code :: "nat option"

text \<open>The two \<open>except\<close> clauses of \<open>main\<close>.\<close>

definition handle_exception ::
  "(decode_error \<Rightarrow> string) \<Rightarrow> string list \<Rightarrow> string list \<Rightarrow> py_exception \<Rightarrow> outcome" where
  "handle_exception err_text out err exc =
     (case exc of
        HTTPError msg \<Rightarrow>
          \<lparr>out_lines = out, err_lines = err @ [''HTTP error: '' @ msg], exit_code = Some 1\<rparr>
      | TileDecodeError e \<Rightarrow>
          \<lparr>out_lines = out, err_lines = err @ [''Unexpected error: '' @ err_text e],
           exit_code = Some 1\<rparr>
      | OtherError msg \<Rightarrow>
          \<lparr>out_lines = out, err_lines = err @ [''Unexpected error: '' @ msg],
           exit_code = Some 1\<rparr>)"

definition main_features :: "'v features_env \<Rightarrow> args \<Rightarrow> outcome" where
  "main_features env args =
     (case adjust_matched_filter (url_lib env) (a_url args) (a_matched args) of
        Inl err \<Rightarrow> handle_exception (error_text env) [] [] (OtherError err)
      | Inr url \<Rightarrow>
          (let out1 = [''Requesting tile...'', url, '''']
           in case fetch_tile (requests_get env) url (a_token args) (a_origin args)
                     (a_debug_http args) of
                (out, err, Inl exc) \<Rightarrow> handle_exception (error_text env) (out1 @ out) err exc
              | (out, err, Inr raw_tile) \<Rightarrow>
                  (let out2 = out1 @ out
                         @ [''Received '' @ str_nat (length raw_tile) @ '' bytes. Decoding...'', '''']
                   in case decode_tile (decode env) raw_tile of
                        Inl e \<Rightarrow> handle_exception (error_text env) out2 err (TileDecodeError e)
                      | Inr decoded \<Rightarrow>
                          (let s1 = summarize_layers (value_printer env) (a_max_features args)
                                      \<lparr>tile = decoded, console = out2\<rparr>;
                               s2 = (if a_print_geometry args
                                     then print_geometries (value_printer env)
                                            (a_geometry_max_features args)
                                            (a_geometry_max_coords args) s1
                                     else s1)
                           in \<lparr>out_lines = console s2, err_lines = err, exit_code = None\<rparr>))))"

subsection \<open>Examples to run the functions on\<close>

text \<open>
  A small \<open>LayerDecoder\<close>: it reads the layer's name, the length-delimited field 1 at
  the start of the layer, and no features.
\<close>

definition sample_layer_decoder ::
  "8 word list \<Rightarrow> error_kind \<times> nat + string \<times> unit layer_data" where
  "sample_layer_decoder layer_bytes =
     (case read_tag layer_bytes 0 of
        Inl e \<Rightarrow> Inl (MalformedLayer, 0)
      | Inr ((field_number, wt), pos1) \<Rightarrow>
          if field_number = 1 \<and> wt = LengthDelimited
          then (case read_length_delimited layer_bytes pos1 of
                  Inl e \<Rightarrow> Inl e
                | Inr (name_bytes, pos2) \<Rightarrow>
                    Inr (map (\<lambda>b. char_of (unat b)) name_bytes, \<lparr>features = None\<rparr>))
          else Inl (MalformedLayer, 0))"

text \<open>Two Layer fields, both named \<open>a\<close>; and two Layer fields named \<open>a\<close> and \<open>b\<close>.\<close>

definition two_layers_same_name :: "8 word list" where
  "two_layers_same_name = [0x1A, 3, 0x0A, 1, 0x61, 0x1A, 3, 0x0A, 1, 0x61]"

definition two_layers :: "8 word list" where
  "two_layers = [0x1A, 3, 0x0A, 1, 0x61, 0x1A, 3, 0x0A, 1, 0x62]"

definition unit_printer :: "unit printer" where
  "unit_printer =
     \<lparr>str_value = (\<lambda>v. ''()''), repr_value = (\<lambda>v. ''()''), json_dumps = (\<lambda>v. ''null''),
      truthy_value = (\<lambda>v. False)\<rparr>"

text \<open>
  A run of \<open>main\<close> in which the server answers 200 with three bytes and the decoder
  fails with the error given; the text of the exception is its message.
\<close>

definition failing_env :: "decode_error \<Rightarrow> unit features_env" where
  "failing_env e =
     \<lparr>url_lib = plain_urllib,
      requests_get = (\<lambda>url headers. Inr \<lparr>status_code = 200, resp_reason = ''OK'',
         headers_repr = ''{}'', content_type = None, resp_text = [], resp_content = [1, 2, 3]\<rparr>),
      decode = (\<lambda>tile_bytes. Inl e),
      error_text = message,
      value_printer = unit_printer\<rparr>"

definition sample_args :: args where
  "sample_args =
     \<lparr>a_url = ''https://h/t/1/2/3?format=MVT&filters[0]=old'', a_max_features = 3,
      a_token = None, a_origin = None, a_debug_http = False, a_matched = Some ''true'',
      a_print_geometry = False, a_geometry_max_features = 5, a_geometry_max_coords = 10\<rparr>"

text \<open>
  A Layer field on the wire: the tag \<open>0x1A\<close> (field 3, length-delimited), the length of
  the payload as a varint, and the payload.
\<close>

definition layer_field :: "8 word list \<Rightarrow> 8 word list" where
  "layer_field payload = 0x1A # encode_varint (of_nat (length payload)) @ payload"

text \<open>
  The line that \<open>summarize_layers\<close> prints at the start of a layer; no other line that it
  prints starts with \<open>Layer: \<close>.
\<close>

definition is_layer_header :: "string \<Rightarrow> bool" where
  "is_layer_header line \<longleftrightarrow> take 7 line = ''Layer: ''"

definition summary_header :: "string \<times> 'v layer_data \<Rightarrow> string" where
  "summary_header item =
     (case item of (layer_name, layer_data) \<Rightarrow>
        ''Layer: '' @ layer_name @ '' | feature count: ''
          @ str_nat (length (features_of layer_data)))"

text \<open>A store with the list \<open>[[1, 2, 3], 7, 8]\<close> at address 1, its first element at
  address 0.\<close>

definition sample_store :: "int pyref list list" where
  "sample_store =
     [[Atom (Val 1), Atom (Val 2), Atom (Val 3)],
      [ListRef 0, Atom (Val 7), Atom (Val 8)]]"

section \<open>Properties of the decoder\<close>

subsection \<open>Reading back an encoded varint\<close>

lemma bit_x7F: "bit (0x7F :: int) n \<longleftrightarrow> n < 7"
proof -
  have "(0x7F :: int) = mask 7"
    by (simp add: mask_eq_exp_minus_1)
  then show ?thesis
    by (simp only: bit_mask_iff) simp
qed

lemma bit_x80: "bit (0x80 :: int) n \<longleftrightarrow> n = 7"
proof -
  have "(0x80 :: int) = 2 ^ 7"
    by simp
  then show ?thesis
    by (simp only: bit_exp_iff) auto
qed

lemma low7_byte: "ucast (((ucast (v AND 0x7F) :: 8 word) OR 0x80) AND 0x7F) = (v AND 0x7F :: 64 word)"
  by (rule bit_word_eqI) (auto simp: bit_simps bit_x7F bit_x80)

lemma cont_byte: "((ucast (v AND 0x7F :: 64 word) :: 8 word) OR 0x80) AND 0x80 \<noteq> 0"
proof -
  have "bit (((ucast (v AND 0x7F :: 64 word) :: 8 word) OR 0x80) AND 0x80) 7"
    by (simp add: bit_simps bit_x7F bit_x80)
  then show ?thesis
    by auto
qed

lemma small_bits:
  assumes "v < (0x80 :: 64 word)"
  shows "bit v n \<Longrightarrow> n < 7"
proof -
  have "v < 2 ^ 7" using assms by simp
  then have t: "take_bit 7 v = v"
    by (simp add: less_mask_eq take_bit_eq_mask)
  have "bit (take_bit 7 v) n \<Longrightarrow> n < 7"
    by (simp only: bit_take_bit_iff)
  then show "bit v n \<Longrightarrow> n < 7"
    by (simp only: t)
qed

lemma last_byte_stop:
  assumes "v < (0x80 :: 64 word)"
  shows "(ucast v :: 8 word) AND 0x80 = 0"
proof (rule bit_word_eqI)
  fix n
  assume "n < LENGTH(8)"
  have "\<not> bit v 7"
    using small_bits [OF assms, of 7] by auto
  then show "bit ((ucast v :: 8 word) AND 0x80) n = bit (0 :: 8 word) n"
    by (auto simp: bit_simps bit_x80)
qed

lemma last_byte_value:
  assumes "v < (0x80 :: 64 word)"
  shows "ucast ((ucast v :: 8 word) AND 0x7F) = v"
proof (rule bit_word_eqI)
  fix n
  assume "n < LENGTH(64)"
  have "bit v n \<Longrightarrow> n < 7"
    by (rule small_bits [OF assms])
  then show "bit (ucast ((ucast v :: 8 word) AND 0x7F) :: 64 word) n = bit v n"
    by (auto simp: bit_simps bit_x7F)
qed

lemma split7: "(v AND 0x7F) OR push_bit 7 (drop_bit 7 v) = (v :: 64 word)"
proof (rule bit_word_eqI)
  fix n
  assume n: "n < LENGTH(64)"
  show "bit (v AND 0x7F OR push_bit 7 (drop_bit 7 v)) n = bit v n"
  proof (cases "n < 7")
    case True
    then show ?thesis by (simp add: bit_simps bit_x7F)
  next
    case False
    then have "7 + (n - 7) = n" by simp
    then show ?thesis using False n by (simp add: bit_simps bit_x7F)
  qed
qed


lemma push_or_push:
  "(acc OR push_bit (7 * i) (v AND 0x7F)) OR push_bit (7 * (i + 1)) (drop_bit 7 v)
     = acc OR push_bit (7 * i) (v :: 64 word)"
proof -
  have "push_bit (7 * (i + 1)) (drop_bit 7 v) = push_bit (7 * i) (push_bit 7 (drop_bit 7 v))"
    by (simp add: push_bit_add add.commute)
  then have "push_bit (7 * i) (v AND 0x7F) OR push_bit (7 * (i + 1)) (drop_bit 7 v)
      = push_bit (7 * i) ((v AND 0x7F) OR push_bit 7 (drop_bit 7 v))"
    by (simp add: push_bit_or)
  then show ?thesis
    by (simp only: split7 or.assoc)
qed

lemma encode_varint_nonempty: "encode_varint v \<noteq> []"
  by (subst encode_varint.simps) simp

lemma varint_loop_last:
  assumes "w < 0x80"
  shows "varint_loop (Suc budget) (pre @ encode_varint w @ rest) (length pre) i acc
     = Inr (acc OR push_bit (7 * i) w, length pre + length (encode_varint w))"
proof -
  have e: "encode_varint w = [ucast w]"
    using assms by (subst encode_varint.simps) simp
  show ?thesis
    using last_byte_stop [OF assms] last_byte_value [OF assms]
    by (simp add: e nth_append Let_def)
qed

lemma varint_loop_encode:
  "unat w < 2 ^ (7 * Suc budget) \<Longrightarrow>
   varint_loop (Suc budget) (pre @ encode_varint w @ rest) (length pre) i acc
     = Inr (acc OR push_bit (7 * i) w, length pre + length (encode_varint w))"
proof (induction budget arbitrary: w pre i acc)
  case 0
  then have "unat w < unat (0x80 :: 64 word)" by simp
  then have "w < 0x80" by (simp only: word_less_nat_alt)
  then show ?case by (rule varint_loop_last)
next
  case (Suc budget)
  show ?case
  proof (cases "w < 0x80")
    case True
    then show ?thesis by (rule varint_loop_last)
  next
    case False
    let ?b = "(ucast (w AND 0x7F) OR 0x80) :: 8 word"
    have e: "encode_varint w = ?b # encode_varint (drop_bit 7 w)"
      using False by (subst encode_varint.simps) simp
    have "unat (drop_bit 7 w) = unat w div 2 ^ 7"
      by (simp add: drop_bit_eq_div unat_div)
    moreover have "(2::nat) ^ (7 * Suc (Suc budget)) = 2 ^ 7 * 2 ^ (7 * Suc budget)"
      by (simp only: power_add [symmetric]) simp
    then have "unat w < 2 ^ 7 * 2 ^ (7 * Suc budget)"
      using Suc.prems by (simp only:)
    ultimately have small: "unat (drop_bit 7 w) < 2 ^ (7 * Suc budget)"
      by (simp add: less_mult_imp_div_less mult.commute)
    have ih: "varint_loop (Suc budget) ((pre @ [?b]) @ encode_varint (drop_bit 7 w) @ rest)
          (length (pre @ [?b])) (i + 1) (acc OR push_bit (7 * i) (w AND 0x7F))
        = Inr ((acc OR push_bit (7 * i) (w AND 0x7F)) OR push_bit (7 * (i + 1)) (drop_bit 7 w),
               length (pre @ [?b]) + length (encode_varint (drop_bit 7 w)))"
      by (rule Suc.IH [OF small])
    have buf: "pre @ encode_varint w @ rest = (pre @ [?b]) @ encode_varint (drop_bit 7 w) @ rest"
      by (simp add: e)
    have at: "(pre @ encode_varint w @ rest) ! length pre = ?b"
      by (simp add: e nth_append)
    have inside: "\<not> length (pre @ encode_varint w @ rest) \<le> length pre"
      by (simp add: e)
    have step: "varint_loop (Suc (Suc budget)) (pre @ encode_varint w @ rest) (length pre) i acc
        = varint_loop (Suc budget) (pre @ encode_varint w @ rest) (length pre + 1) (i + 1)
            (acc OR push_bit (7 * i) (w AND 0x7F))"
      using cont_byte [of w] low7_byte [of w] inside
      by (subst varint_loop.simps(2)) (simp only: at Let_def if_False)
    note step
    also have "varint_loop (Suc budget) (pre @ encode_varint w @ rest) (length pre + 1) (i + 1)
            (acc OR push_bit (7 * i) (w AND 0x7F))
        = varint_loop (Suc budget) ((pre @ [?b]) @ encode_varint (drop_bit 7 w) @ rest)
            (length (pre @ [?b])) (i + 1) (acc OR push_bit (7 * i) (w AND 0x7F))"
      by (simp add: e del: varint_loop.simps)
    also have "\<dots> = Inr ((acc OR push_bit (7 * i) (w AND 0x7F))
                           OR push_bit (7 * (i + 1)) (drop_bit 7 w),
                         length (pre @ [?b]) + length (encode_varint (drop_bit 7 w)))"
      by (rule ih)
    also have "\<dots> = Inr (acc OR push_bit (7 * i) w, length pre + length (encode_varint w))"
      by (simp only: push_or_push) (simp add: e)
    finally show ?thesis .
  qed
qed

lemma read_varint_at:
  "read_varint (pre @ encode_varint v @ rest) (length pre)
     = Inr (v, length pre + length (encode_varint v))"
proof -
  have "unat v < 2 ^ 64"
    using unsigned_less [of v] by simp
  also have "(2::nat) ^ 64 \<le> 2 ^ (7 * Suc 9)"
    by simp
  finally have "unat v < 2 ^ (7 * Suc 9)" .
  then have "varint_loop (Suc 9) (pre @ encode_varint v @ rest) (length pre) 0 0
      = Inr (0 OR push_bit (7 * 0) v, length pre + length (encode_varint v))"
    by (rule varint_loop_encode)
  then show ?thesis
    by (simp add: read_varint_def)
qed


text \<open>
  Claim C8. For every unsigned 64-bit integer \<open>v\<close>, \<open>read_varint\<close> placed at the start
  of the varint encoding of \<open>v\<close>, anywhere in a buffer, yields \<open>v\<close> and leaves the
  cursor just behind the encoding.
\<close>

theorem read_varint_encode:
  "read_varint (pre @ encode_varint v @ rest) (length pre)
     = Inr (v, length pre + length (encode_varint v))"
  by (rule read_varint_at)

text \<open>
  Claim C2. The empty buffer decodes without error, to a tile with no layers.
\<close>

theorem decode_tile_empty:
  "decode_tile (mvt_decode layer_decoder diagnostic) [] = Inr []"
  by (simp add: decode_tile_def mvt_decode_def tile_decoder_def tile_fields.simps
      dict_of_layers_def)

subsection \<open>The layers of a tile, in the order of the buffer\<close>

lemma read_tag_layer:
  "read_tag (pre @ 0x1A # rest) (length pre) = Inr ((3, LengthDelimited), length pre + 1)"
proof -
  have e: "encode_varint 0x1A = [0x1A]"
    by (subst encode_varint.simps) simp
  have "read_varint (pre @ encode_varint 0x1A @ rest) (length pre)
      = Inr (0x1A, length pre + length (encode_varint 0x1A))"
    by (rule read_varint_at)
  then have "read_varint (pre @ 0x1A # rest) (length pre) = Inr (0x1A, length pre + 1)"
    by (simp add: e)
  then show ?thesis
    by (simp add: read_tag_def wire_type_of_def drop_bit_eq_div)
qed

lemma read_length_delimited_payload:
  assumes "length payload < 2 ^ 64"
  shows "read_length_delimited
           (pre @ encode_varint (of_nat (length payload)) @ payload @ rest) (length pre)
         = Inr (payload, length pre + length (encode_varint (of_nat (length payload)))
                         + length payload)"
proof -
  have u: "unat (of_nat (length payload) :: 64 word) = length payload"
    using assms by (simp add: unat_of_nat)
  have "read_varint (pre @ encode_varint (of_nat (length payload)) @ (payload @ rest)) (length pre)
      = Inr (of_nat (length payload),
             length pre + length (encode_varint (of_nat (length payload) :: 64 word)))"
    by (rule read_varint_at)
  then show ?thesis
    by (simp add: read_length_delimited_def u)
qed

lemma tile_fields_layer_fields:
  assumes "list_all2 (\<lambda>payload layer. length payload < 2 ^ 64 \<and> layer_decoder payload = Inr layer)
             payloads layers"
  shows "tile_fields layer_decoder (pre @ concat (map layer_field payloads)) (length pre) acc
           = Inr (acc @ layers)"
  using assms
proof (induction payloads arbitrary: pre acc layers)
  case Nil
  then show ?case by (simp add: tile_fields.simps)
next
  case (Cons payload payloads)
  obtain layer layers' where l: "layers = layer # layers'"
    and len: "length payload < 2 ^ 64" and dec: "layer_decoder payload = Inr layer"
    and rest: "list_all2 (\<lambda>payload layer. length payload < 2 ^ 64
                 \<and> layer_decoder payload = Inr layer) payloads layers'"
    using Cons.prems by (auto simp: list_all2_Cons1)
  let ?rest = "concat (map layer_field payloads)"
  let ?n = "encode_varint (of_nat (length payload) :: 64 word)"
  define B where "B = pre @ concat (map layer_field (payload # payloads))"
  define P2 where "P2 = length (pre @ layer_field payload)"
  have tag: "read_tag B (length pre) = Inr ((3, LengthDelimited), Suc (length pre))"
    using read_tag_layer [of pre "?n @ payload @ ?rest"]
    by (simp add: B_def layer_field_def)
  have body: "read_length_delimited B (Suc (length pre)) = Inr (payload, P2)"
    using read_length_delimited_payload [OF len, of "pre @ [0x1A]" ?rest]
    by (simp add: B_def P2_def layer_field_def)
  have inside: "\<not> length B \<le> length pre"
    by (simp add: B_def layer_field_def)
  have "tile_fields layer_decoder B (length pre) acc
      = tile_fields layer_decoder B P2 (acc @ [layer])"
    by (subst tile_fields.simps) (simp add: inside tag body dec)
  also have "\<dots> = Inr ((acc @ [layer]) @ layers')"
    using Cons.IH [OF rest, of "pre @ layer_field payload" "acc @ [layer]"]
    by (simp add: B_def P2_def)
  finally show ?case
    by (simp add: l B_def)
qed

lemma dict_set_keys:
  "map fst (dict_set d k v) = (if k \<in> set (map fst d) then map fst d else map fst d @ [k])"
  by (induction d) force+

lemma dict_set_new: "k \<notin> set (map fst d) \<Longrightarrow> dict_set d k v = d @ [(k, v)]"
  by (induction d) auto

lemma dict_of_layers_snoc:
  "dict_of_layers (layers @ [(name, layer)]) = dict_set (dict_of_layers layers) name layer"
  by (simp add: dict_of_layers_def)

lemma dict_of_layers_keys_set: "set (map fst (dict_of_layers layers)) = set (map fst layers)"
proof (induction layers rule: rev_induct)
  case Nil
  show ?case by (simp add: dict_of_layers_def)
next
  case (snoc x xs)
  obtain name layer where x: "x = (name, layer)" by (cases x)
  show ?case
    using snoc by (auto simp: x dict_of_layers_snoc dict_set_keys)
qed

lemma dict_of_layers_distinct: "distinct (map fst (dict_of_layers layers))"
proof (induction layers rule: rev_induct)
  case Nil
  show ?case by (simp add: dict_of_layers_def)
next
  case (snoc x xs)
  obtain name layer where x: "x = (name, layer)" by (cases x)
  show ?case
    using snoc by (auto simp: x dict_of_layers_snoc dict_set_keys)
qed

lemma dict_of_layers_id:
  "distinct (map fst layers) \<Longrightarrow> dict_of_layers layers = layers"
proof (induction layers rule: rev_induct)
  case Nil
  show ?case by (simp add: dict_of_layers_def)
next
  case (snoc x xs)
  obtain name layer where x: "x = (name, layer)" by (cases x)
  have "dict_of_layers xs = xs" and "name \<notin> set (map fst xs)"
    using snoc x by auto
  then show ?case
    by (simp add: x dict_of_layers_snoc dict_set_new)
qed

lemma first_index_append:
  "a \<in> set xs \<Longrightarrow> first_index (xs @ ys) a = first_index xs a"
  by (induction xs) (auto simp: first_index_Cons)

lemma first_index_less: "a \<in> set xs \<Longrightarrow> first_index xs a < length xs"
  by (induction xs) (auto simp: first_index_Cons)

lemma first_index_new: "a \<notin> set xs \<Longrightarrow> first_index (xs @ [a]) a = length xs"
  by (induction xs) (auto simp: first_index_Cons)

lemma dict_of_layers_order:
  "sorted_wrt (\<lambda>a b. first_index (map fst layers) a < first_index (map fst layers) b)
     (map fst (dict_of_layers layers))"
proof (induction layers rule: rev_induct)
  case Nil
  show ?case by (simp add: dict_of_layers_def)
next
  case (snoc x xs)
  obtain name layer where x: "x = (name, layer)" by (cases x)
  let ?keys = "map fst (dict_of_layers xs)"
  have keys: "set ?keys = set (map fst xs)"
    by (rule dict_of_layers_keys_set)
  have old: "sorted_wrt (\<lambda>a b. first_index (map fst xs @ [name]) a
                              < first_index (map fst xs @ [name]) b) ?keys"
  proof (rule sorted_wrt_mono_rel [OF _ snoc.IH])
    fix a b
    assume "a \<in> set ?keys" "b \<in> set ?keys"
      and "first_index (map fst xs) a < first_index (map fst xs) b"
    then show "first_index (map fst xs @ [name]) a < first_index (map fst xs @ [name]) b"
      using keys by (simp add: first_index_append)
  qed
  show ?case
  proof (cases "name \<in> set (map fst xs)")
    case True
    then show ?thesis
      using old keys by (simp add: x dict_of_layers_snoc dict_set_keys)
  next
    case False
    have "\<forall>a \<in> set ?keys. first_index (map fst xs @ [name]) a
                           < first_index (map fst xs @ [name]) name"
    proof
      fix a
      assume "a \<in> set ?keys"
      then have a: "a \<in> set (map fst xs)"
        using keys by simp
      have "first_index (map fst xs @ [name]) a = first_index (map fst xs) a"
        using a by (rule first_index_append)
      moreover have "first_index (map fst xs) a < length (map fst xs)"
        using a by (rule first_index_less)
      moreover have "first_index (map fst xs @ [name]) name = length (map fst xs)"
        using False by (rule first_index_new)
      ultimately show "first_index (map fst xs @ [name]) a
                         < first_index (map fst xs @ [name]) name"
        by simp
    qed
    moreover have "name \<notin> set ?keys"
      using keys False by simp
    then have "map fst (dict_of_layers (xs @ [x])) = ?keys @ [name]"
      by (simp only: x dict_of_layers_snoc dict_set_keys if_False)
    ultimately show ?thesis
      using old by (simp add: x sorted_wrt_append)
  qed
qed


subsection \<open>What the consumers print, and what they leave alone\<close>

lemma summarize_loop_tile: "tile (summarize_loop pr m items s) = tile s"
  by (induction items arbitrary: s) auto

lemma geometry_loop_tile: "tile (geometry_loop pr m k items s) = tile s"
  by (induction items arbitrary: s) auto

lemma summarize_layers_tile: "tile (summarize_layers pr m s) = tile s"
  by (simp add: summarize_layers_def summarize_loop_tile)

lemma print_geometries_tile: "tile (print_geometries pr m k s) = tile s"
  by (simp add: print_geometries_def geometry_loop_tile)

lemma summarize_loop_console:
  "console (summarize_loop pr m items s) = console s @ concat (map (summarize_layer pr m) items)"
  by (induction items arbitrary: s) auto

lemma summarize_features_no_header:
  "filter is_layer_header (summarize_features pr idx feats) = []"
  by (induction feats arbitrary: idx) (auto simp: is_layer_header_def)

lemma omitted_line_no_header: "filter is_layer_header (omitted_line feats m) = []"
  by (simp add: omitted_line_def is_layer_header_def)

lemma summarize_layer_header:
  "filter is_layer_header (summarize_layer pr m item) = [summary_header item]"
  by (cases item)
     (simp add: summarize_layer_def summary_header_def Let_def summarize_features_no_header
       omitted_line_no_header, simp add: is_layer_header_def)

lemma concat_headers:
  "filter is_layer_header (concat (map (summarize_layer pr m) items)) = map summary_header items"
  by (induction items) (auto simp: summarize_layer_header)

lemma summarize_layers_headers:
  "filter is_layer_header (console (summarize_layers pr m \<lparr>tile = t, console = []\<rparr>))
     = map summary_header t"
  by (simp add: summarize_layers_def summarize_loop_console concat_headers is_layer_header_def)

lemma sample_two_layers:
  "tile_decoder sample_layer_decoder two_layers
     = Inr [(''a'', \<lparr>features = None\<rparr>), (''b'', \<lparr>features = None\<rparr>)]"
  by code_simp

lemma sample_payloads:
  "two_layers = concat (map layer_field [[0x0A, 1, 0x61], [0x0A, 1, 0x62]])"
  by code_simp

lemma sample_layers:
  "sample_layer_decoder [0x0A, 1, 0x61] = Inr (''a'', \<lparr>features = None\<rparr>)"
  "sample_layer_decoder [0x0A, 1, 0x62] = Inr (''b'', \<lparr>features = None\<rparr>)"
  by code_simp+

text \<open>
  Claim C1, as stated, at a concrete input: the buffer holds two Layer fields, both named
  \<open>a\<close>, and the decoder meets both; the tile that \<open>decode_tile\<close> returns, a dict
  keyed by layer name, has one item.
\<close>

theorem decode_tile_order_counterexample:
  "tile_decoder sample_layer_decoder two_layers_same_name
     = Inr [(''a'', \<lparr>features = None\<rparr>), (''a'', \<lparr>features = None\<rparr>)]
   \<and> decode_tile (mvt_decode sample_layer_decoder (\<lambda>k off. ''bad tile'')) two_layers_same_name
     = Inr [(''a'', \<lparr>features = None\<rparr>)]"
  by code_simp

text \<open>
  Claim C1, amended. The tile is a dict keyed by layer name, in insertion order. A buffer
  made of Layer fields is decoded to its layers in the order of the fields. Whatever the
  buffer, the tile has one item for each layer name met, ordered by the first encounter
  of the name; when the names are pairwise distinct, the items are exactly the layers in
  encounter order; and \<open>summarize_layers\<close> prints the layers in the order of the items.
\<close>

theorem decode_tile_layer_order:
  "(list_all2 (\<lambda>payload layer. length payload < 2 ^ 64 \<and> layer_decoder payload = Inr layer)
      payloads layers
    \<longrightarrow> tile_decoder layer_decoder (concat (map layer_field payloads)) = Inr layers)
   \<and> (tile_decoder layer_decoder buf = Inr layers \<longrightarrow>
        decode_tile (mvt_decode layer_decoder diagnostic) buf = Inr (dict_of_layers layers)
        \<and> distinct (map fst (dict_of_layers layers))
        \<and> set (map fst (dict_of_layers layers)) = set (map fst layers)
        \<and> sorted_wrt (\<lambda>a b. first_index (map fst layers) a < first_index (map fst layers) b)
             (map fst (dict_of_layers layers))
        \<and> (distinct (map fst layers) \<longrightarrow> dict_of_layers layers = layers)
        \<and> filter is_layer_header
             (console (summarize_layers pr max_features
                        \<lparr>tile = dict_of_layers layers, console = []\<rparr>))
           = map summary_header (dict_of_layers layers))"
proof (intro conjI impI)
  assume "list_all2 (\<lambda>payload layer. length payload < 2 ^ 64 \<and> layer_decoder payload = Inr layer)
      payloads layers"
  then show "tile_decoder layer_decoder (concat (map layer_field payloads)) = Inr layers"
    using tile_fields_layer_fields [of layer_decoder payloads layers "[]" "[]"]
    by (simp add: tile_decoder_def)
next
  assume "tile_decoder layer_decoder buf = Inr layers"
  then show "decode_tile (mvt_decode layer_decoder diagnostic) buf = Inr (dict_of_layers layers)"
    by (simp add: decode_tile_def mvt_decode_def)
next
  show "distinct (map fst (dict_of_layers layers))"
    by (rule dict_of_layers_distinct)
next
  show "set (map fst (dict_of_layers layers)) = set (map fst layers)"
    by (rule dict_of_layers_keys_set)
next
  show "sorted_wrt (\<lambda>a b. first_index (map fst layers) a < first_index (map fst layers) b)
          (map fst (dict_of_layers layers))"
    by (rule dict_of_layers_order)
next
  assume "distinct (map fst layers)"
  then show "dict_of_layers layers = layers"
    by (rule dict_of_layers_id)
next
  show "filter is_layer_header
          (console (summarize_layers pr max_features
                     \<lparr>tile = dict_of_layers layers, console = []\<rparr>))
        = map summary_header (dict_of_layers layers)"
    by (rule summarize_layers_headers)
qed

theorem decode_tile_layer_order_witness:
  "list_all2 (\<lambda>payload layer. length payload < 2 ^ 64 \<and> sample_layer_decoder payload = Inr layer)
     [[0x0A, 1, 0x61], [0x0A, 1, 0x62]]
     [(''a'', \<lparr>features = None\<rparr>), (''b'', \<lparr>features = None\<rparr>)]
   \<and> tile_decoder sample_layer_decoder two_layers
       = Inr [(''a'', \<lparr>features = None\<rparr>), (''b'', \<lparr>features = None\<rparr>)]
   \<and> distinct (map fst [(''a'', \<lparr>features = None :: unit feature list option\<rparr>),
                       (''b'', \<lparr>features = None\<rparr>)])
   \<and> decode_tile (mvt_decode sample_layer_decoder (\<lambda>k off. ''bad tile'')) two_layers
       = Inr [(''a'', \<lparr>features = None\<rparr>), (''b'', \<lparr>features = None\<rparr>)]
   \<and> filter is_layer_header
        (console (summarize_layers unit_printer 3
           \<lparr>tile = [(''a'', \<lparr>features = None\<rparr>), (''b'', \<lparr>features = None\<rparr>)], console = []\<rparr>))
       = [''Layer: a | feature count: 0'', ''Layer: b | feature count: 0'']"
proof -
  let ?layers = "[(''a'', \<lparr>features = None :: unit feature list option\<rparr>),
                  (''b'', \<lparr>features = None\<rparr>)]"
  have h1: "list_all2 (\<lambda>payload layer. length payload < 2 ^ 64
               \<and> sample_layer_decoder payload = Inr layer)
             [[0x0A, 1, 0x61], [0x0A, 1, 0x62]] ?layers"
    by (simp add: sample_layers)
  have h2: "distinct (map fst ?layers)"
    by simp
  note inst = decode_tile_layer_order
    [of sample_layer_decoder "[[0x0A, 1, 0x61], [0x0A, 1, 0x62]]" ?layers two_layers
        "\<lambda>k off. ''bad tile''" unit_printer 3]
  have h3: "tile_decoder sample_layer_decoder two_layers = Inr ?layers"
    using inst h1 by (simp add: sample_payloads)
  have same: "dict_of_layers ?layers = ?layers"
    using inst h3 h2 by blast
  show ?thesis
    using inst h1 h2 h3
    by (simp add: same summary_header_def features_of_def str_nat.simps)
qed

subsection \<open>\<open>truncate_geometry\<close> leaves the lists it is given as they are\<close>

lemma extends_refl: "extends st st"
  by (simp add: extends_def)

lemma extends_append: "extends st (st @ xs)"
  by (simp add: extends_def)

lemma extends_trans: "extends a b \<Longrightarrow> extends b c \<Longrightarrow> extends a c"
  by (metis extends_def append_take_drop_id take_append take_all_iff le_refl  length_take min.cobounded2 take_take min_def)

lemma map_st_extends:
  assumes "\<And>s x. x \<in> set xs \<Longrightarrow> extends s (fst (f s x))"
  shows "extends s (fst (map_st f s xs))"
  using assms
proof (induction xs arbitrary: s)
  case Nil
  show ?case by (simp add: extends_refl)
next
  case (Cons x xs)
  have 1: "extends s (fst (f s x))"
    using Cons.prems by simp
  have 2: "extends (fst (f s x)) (fst (map_st f (fst (f s x)) xs))"
    using Cons by simp
  show ?case
    using 1 extends_trans [OF 1 2]
    by (auto split: prod.splits option.splits)
qed

lemma truncate_geometry_obj_extends:
  "extends st (fst (truncate_geometry_obj depth st geom max_coords))"
proof (induction depth arbitrary: st geom)
  case 0
  show ?case by (simp add: extends_refl)
next
  case (Suc depth)
  show ?case
  proof (cases geom)
    case (Atom a)
    then show ?thesis by (simp add: extends_refl)
  next
    case (ListRef addr)
    let ?trimmed = "py_slice_to (list_at st addr) max_coords"
    let ?run = "map_st (\<lambda>s item. truncate_geometry_obj depth s item max_coords)
                  (st @ [?trimmed]) ?trimmed"
    have a: "extends st (st @ [?trimmed])"
      by (rule extends_append)
    have b: "extends (st @ [?trimmed]) (fst ?run)"
      by (rule map_st_extends) (rule Suc.IH)
    have c: "extends (fst ?run) (fst ?run @ [ys])" for ys
      by (rule extends_append)
    show ?thesis
      using extends_trans [OF a b] extends_trans [OF extends_trans [OF a b] c]
      by (auto simp: ListRef Let_def split: prod.splits option.splits)
  qed
qed


lemma extends_length: "extends st st' \<Longrightarrow> length st \<le> length st'"
  by (metis extends_def length_take min.cobounded1 min.commute)

lemma extends_nth: "extends st st' \<Longrightarrow> a < length st \<Longrightarrow> st' ! a = st ! a"
  by (metis extends_def nth_take)

lemma those_map_Some:
  "those (map f xs) = Some vs \<longleftrightarrow> list_all2 (\<lambda>x v. f x = Some v) xs vs"
proof (induction xs arbitrary: vs)
  case Nil
  show ?case by auto
next
  case (Cons x xs)
  show ?case
    by (cases vs) (auto simp: Cons.IH split: option.splits)
qed

lemma geom_of_extends:
  "extends st st' \<Longrightarrow> geom_of depth st r = Some v \<Longrightarrow> geom_of depth st' r = Some v"
proof (induction depth arbitrary: r v)
  case 0
  then show ?case by simp
next
  case (Suc depth)
  show ?case
  proof (cases r)
    case (Atom a)
    then show ?thesis using Suc.prems by simp
  next
    case (ListRef addr)
    have addr: "addr < length st"
      using Suc.prems(2) ListRef by (simp split: if_splits)
    then obtain vs where v: "v = PyList vs"
      and all: "list_all2 (\<lambda>x w. geom_of depth st x = Some w) (st ! addr) vs"
      using Suc.prems(2) ListRef by (auto simp: those_map_Some)
    have "list_all2 (\<lambda>x w. geom_of depth st' x = Some w) (st ! addr) vs"
      using all Suc.IH [OF Suc.prems(1)] by (rule list_all2_mono)
    then show ?thesis
      using addr v ListRef extends_length [OF Suc.prems(1)] extends_nth [OF Suc.prems(1) addr]
      by (simp add: those_map_Some)
  qed
qed

lemma py_slice_to_all2:
  "list_all2 P xs ys \<Longrightarrow> list_all2 P (py_slice_to xs k) (py_slice_to ys k)"
  by (auto simp: py_slice_to_def list_all2_lengthD intro: list_all2_takeI)

lemma map_st_refines:
  fixes s :: "'v pyref list list" and ws :: "'v atom geom list"
  assumes step: "\<And>(s :: 'v pyref list list) x (w :: 'v atom geom).
      geom_of depth s x = Some w \<Longrightarrow>
      \<exists>s' y. truncate_geometry_obj depth s x n = (s', Some y)
             \<and> geom_of depth s' y = Some (truncate_geometry w n)"
    and all: "list_all2 (\<lambda>x w. geom_of depth s x = Some w) xs ws"
  shows "\<exists>s' ys. map_st (\<lambda>s item. truncate_geometry_obj depth s item n) s xs = (s', Some ys)
           \<and> extends s s'
           \<and> list_all2 (\<lambda>y w. geom_of depth s' y = Some (truncate_geometry w n)) ys ws"
  using all
proof (induction xs arbitrary: s ws)
  case Nil
  then show ?case by (simp add: extends_refl)
next
  case (Cons x xs)
  obtain w ws' where ws: "ws = w # ws'" and x: "geom_of depth s x = Some w"
    and rest: "list_all2 (\<lambda>x w. geom_of depth s x = Some w) xs ws'"
    using Cons.prems by (auto simp: list_all2_Cons1)
  obtain s1 y where run1: "truncate_geometry_obj depth s x n = (s1, Some y)"
    and y: "geom_of depth s1 y = Some (truncate_geometry w n)"
    using step [OF x] by blast
  have e1: "extends s s1"
    using truncate_geometry_obj_extends [of s depth x n] run1 by simp
  have "list_all2 (\<lambda>x w. geom_of depth s1 x = Some w) xs ws'"
    using rest geom_of_extends [OF e1] by (rule list_all2_mono)
  then obtain s2 ys where run2:
      "map_st (\<lambda>s item. truncate_geometry_obj depth s item n) s1 xs = (s2, Some ys)"
    and e2: "extends s1 s2"
    and ys: "list_all2 (\<lambda>y w. geom_of depth s2 y = Some (truncate_geometry w n)) ys ws'"
    using Cons.IH by blast
  have "geom_of depth s2 y = Some (truncate_geometry w n)"
    using geom_of_extends [OF e2 y] .
  then show ?case
    using run1 run2 ys ws extends_trans [OF e1 e2] by simp
qed

lemma truncate_geometry_obj_refines:
  "geom_of depth st r = Some v \<Longrightarrow>
   \<exists>st' r'. truncate_geometry_obj depth st r n = (st', Some r')
           \<and> geom_of depth st' r' = Some (truncate_geometry v n)"
proof (induction depth arbitrary: st r v)
  case 0
  then show ?case by simp
next
  case (Suc depth)
  show ?case
  proof (cases r)
    case (Atom a)
    then show ?thesis using Suc.prems by auto
  next
    case (ListRef addr)
    have addr: "addr < length st"
      using Suc.prems ListRef by (simp split: if_splits)
    then obtain vs where v: "v = PyList vs"
      and all: "list_all2 (\<lambda>x w. geom_of depth st x = Some w) (st ! addr) vs"
      using Suc.prems ListRef by (auto simp: those_map_Some)
    let ?trimmed = "py_slice_to (st ! addr) n"
    let ?st1 = "st @ [?trimmed]"
    have "list_all2 (\<lambda>x w. geom_of depth st x = Some w) ?trimmed (py_slice_to vs n)"
      using all by (rule py_slice_to_all2)
    then have "list_all2 (\<lambda>x w. geom_of depth ?st1 x = Some w) ?trimmed (py_slice_to vs n)"
      using geom_of_extends [OF extends_append [of st "[?trimmed]"]] by (rule list_all2_mono)
    then obtain st2 ys where run:
        "map_st (\<lambda>s item. truncate_geometry_obj depth s item n) ?st1 ?trimmed = (st2, Some ys)"
      and ys: "list_all2 (\<lambda>y w. geom_of depth st2 y = Some (truncate_geometry w n))
                 ys (py_slice_to vs n)"
      using map_st_refines [of depth n ?st1 ?trimmed "py_slice_to vs n", OF Suc.IH] by blast
    have "list_all2 (\<lambda>y w. geom_of depth (st2 @ [ys]) y = Some (truncate_geometry w n))
            ys (py_slice_to vs n)"
      using ys geom_of_extends [OF extends_append [of st2 "[ys]"]] by (rule list_all2_mono)
    then have "list_all2 (\<lambda>y w. geom_of depth (st2 @ [ys]) y = Some w)
            ys (map (\<lambda>item. truncate_geometry item n) (py_slice_to vs n))"
      by (simp add: list_all2_map2)
    then have "geom_of (Suc depth) (st2 @ [ys]) (ListRef (length st2))
        = Some (truncate_geometry (PyList vs) n)"
      by (simp add: those_map_Some)
    then show ?thesis
      using run addr by (simp add: ListRef v list_at_def Let_def)
  qed
qed

lemma sample_store_value:
  "geom_of 3 sample_store (ListRef 1)
     = Some (PyList [PyList [NonList (Val 1), NonList (Val 2), NonList (Val 3)],
                     NonList (Val 7), NonList (Val 8)])"
  by code_simp

lemma sample_store_run:
  "truncate_geometry_obj 3 sample_store (ListRef 1) 2
     = (sample_store
          @ [[ListRef 0, Atom (Val 7)],
             [Atom (Val 1), Atom (Val 2)],
             [Atom (Val 1), Atom (Val 2)],
             [ListRef 4, Atom (Val 7)]],
        Some (ListRef 5))"
  by code_simp

text \<open>
  Claim C7. \<open>summarize_layers\<close> and \<open>print_geometries\<close> leave the tile they are handed
  as it was: layers, features and geometries. \<open>truncate_geometry\<close> changes no list
  object that existed before the call: the store after the call has every old object
  unchanged at its address, the input still reads as the same nested lists, and the
  result is a reference to the truncated value that the function on values computes.
\<close>

theorem consumers_read_only:
  "tile (summarize_layers pr max_features s) = tile s
   \<and> tile (print_geometries pr max_features max_coords s) = tile s
   \<and> extends st (fst (truncate_geometry_obj depth st r max_coords))
   \<and> (geom_of depth st r = Some v \<longrightarrow>
        geom_of depth (fst (truncate_geometry_obj depth st r max_coords)) r = Some v
        \<and> (\<exists>r'. snd (truncate_geometry_obj depth st r max_coords) = Some r'
               \<and> geom_of depth (fst (truncate_geometry_obj depth st r max_coords)) r'
                   = Some (truncate_geometry v max_coords)))"
proof (intro conjI impI)
  show "tile (summarize_layers pr max_features s) = tile s"
    by (rule summarize_layers_tile)
  show "tile (print_geometries pr max_features max_coords s) = tile s"
    by (rule print_geometries_tile)
  show ext: "extends st (fst (truncate_geometry_obj depth st r max_coords))"
    by (rule truncate_geometry_obj_extends)
  assume v: "geom_of depth st r = Some v"
  show "geom_of depth (fst (truncate_geometry_obj depth st r max_coords)) r = Some v"
    using ext v by (rule geom_of_extends)
  show "\<exists>r'. snd (truncate_geometry_obj depth st r max_coords) = Some r'
          \<and> geom_of depth (fst (truncate_geometry_obj depth st r max_coords)) r'
              = Some (truncate_geometry v max_coords)"
    using truncate_geometry_obj_refines [OF v, of max_coords] by auto
qed

theorem consumers_read_only_witness:
  "geom_of 3 sample_store (ListRef 1)
     = Some (PyList [PyList [NonList (Val 1), NonList (Val 2), NonList (Val 3)],
                     NonList (Val 7), NonList (Val 8)])
   \<and> extends sample_store (fst (truncate_geometry_obj 3 sample_store (ListRef 1) 2))
   \<and> geom_of 3 (fst (truncate_geometry_obj 3 sample_store (ListRef 1) 2)) (ListRef 1)
     = Some (PyList [PyList [NonList (Val 1), NonList (Val 2), NonList (Val 3)],
                     NonList (Val 7), NonList (Val 8)])
   \<and> snd (truncate_geometry_obj 3 sample_store (ListRef 1) 2) = Some (ListRef 5)
   \<and> geom_of 3 (fst (truncate_geometry_obj 3 sample_store (ListRef 1) 2)) (ListRef 5)
     = Some (PyList [PyList [NonList (Val 1), NonList (Val 2)], NonList (Val 7)])"
proof -
  let ?v = "PyList [PyList [NonList (Val 1), NonList (Val 2), NonList (Val (3::int))],
                    NonList (Val 7), NonList (Val 8)]"
  let ?run = "truncate_geometry_obj 3 sample_store (ListRef 1) 2"
  note inst = consumers_read_only
    [of unit_printer 3 "\<lparr>tile = [], console = []\<rparr>" 2 sample_store 3 "ListRef 1" ?v]
  have a: "extends sample_store (fst ?run)"
    using inst by blast
  have b: "geom_of 3 (fst ?run) (ListRef 1) = Some ?v"
    using inst sample_store_value by blast
  have c: "snd ?run = Some (ListRef 5)"
    by (simp only: sample_store_run snd_conv)
  have t: "truncate_geometry ?v 2
      = PyList [PyList [NonList (Val 1), NonList (Val 2)], NonList (Val 7)]"
    by (simp add: py_slice_to_def)
  obtain r' where "snd ?run = Some r'"
    and "geom_of 3 (fst ?run) r' = Some (truncate_geometry ?v 2)"
    using inst sample_store_value by blast
  then have d: "geom_of 3 (fst ?run) (ListRef 5)
      = Some (PyList [PyList [NonList (Val 1), NonList (Val 2)], NonList (Val 7)])"
    using c t by simp
  show ?thesis
    using sample_store_value a b c d by blast
qed

subsection \<open>The query string written by \<open>adjust_matched_filter\<close>\<close>



lemma sample_url:
  "adjust_matched_filter plain_urllib (a_url sample_args) (a_matched sample_args)
     = Inr (''https://h/t/1/2/3?format=MVT&filters[0]='' @ matched_predicate ''true'')"
  by (simp add: sample_args_def adjust_matched_filter_def plain_urllib_def plain_urlsplit_def
      plain_urlunsplit_def cut_def Let_def matched_predicate_def)




subsection \<open>What the caller gets when decoding fails\<close>

lemma main_decode_failure:
  assumes "adjust_matched_filter (url_lib env) (a_url args) (a_matched args) = Inr url"
    and "fetch_tile (requests_get env) url (a_token args) (a_origin args) (a_debug_http args)
           = (out, err, Inr raw_tile)"
    and "decode_tile (decode env) raw_tile = Inl e"
  shows "main_features env args =
      \<lparr>out_lines = [''Requesting tile...'', url, ''''] @ out
          @ [''Received '' @ str_nat (length raw_tile) @ '' bytes. Decoding...'', ''''],
       err_lines = err @ [''Unexpected error: '' @ error_text env e],
       exit_code = Some 1\<rparr>"
  using assms by (simp add: main_features_def handle_exception_def Let_def)

lemma sample_fetch:
  "fetch_tile (requests_get (failing_env e)) url None None False = ([], [], Inr [1, 2, 3])"
  by (simp add: fetch_tile_def failing_env_def is_http_error_def request_headers_def)

lemma sample_failure:
  "main_features (failing_env e) sample_args =
      \<lparr>out_lines = [''Requesting tile...'',
                    ''https://h/t/1/2/3?format=MVT&filters[0]='' @ matched_predicate ''true'', '''',
                    ''Received 3 bytes. Decoding...'', ''''],
       err_lines = [''Unexpected error: '' @ message e],
       exit_code = Some 1\<rparr>"
proof -
  have u: "adjust_matched_filter (url_lib (failing_env e)) (a_url sample_args) (a_matched sample_args)
     = Inr (''https://h/t/1/2/3?format=MVT&filters[0]='' @ matched_predicate ''true'')"
    using sample_url by (simp add: failing_env_def)
  have f: "fetch_tile (requests_get (failing_env e))
        (''https://h/t/1/2/3?format=MVT&filters[0]='' @ matched_predicate ''true'')
        (a_token sample_args) (a_origin sample_args) (a_debug_http sample_args)
      = ([], [], Inr [1, 2, 3])"
    using sample_fetch by (simp add: sample_args_def)
  have d: "decode_tile (decode (failing_env e)) [1, 2, 3] = Inl e"
    by (simp add: decode_tile_def failing_env_def)
  have t: "error_text (failing_env e) = message"
    by (simp add: failing_env_def)
  show ?thesis
    using main_decode_failure [OF u f d] by (simp add: t str_nat.simps)
qed

text \<open>
  Claim C5, as stated, at a concrete input: two runs in which decoding fails with errors
  of different kinds at different offsets, with the same message, give the caller the
  same output and the same exit status; what the caller receives carries neither the kind
  nor the offset.
\<close>

theorem decode_failure_counterexample:
  "main_features (failing_env \<lparr>kind = TruncatedInput, message = ''bad tile'', offset = 3\<rparr>)
     sample_args
   = main_features (failing_env \<lparr>kind = VarintOverflow, message = ''bad tile'', offset = 10\<rparr>)
     sample_args
   \<and> kind \<lparr>kind = TruncatedInput, message = ''bad tile'', offset = 3\<rparr>
       \<noteq> kind \<lparr>kind = VarintOverflow, message = ''bad tile'', offset = 10\<rparr>
   \<and> offset \<lparr>kind = TruncatedInput, message = ''bad tile'', offset = 3\<rparr>
       \<noteq> offset \<lparr>kind = VarintOverflow, message = ''bad tile'', offset = 10\<rparr>"
  by (simp add: sample_failure)

text \<open>
  Claim C5, amended. Whenever the tile is fetched and decoding fails, \<open>main\<close> writes one
  line to standard error, \<open>Unexpected error: \<close> followed by the text of the exception, and
  exits with status 1; standard output has the request and the byte count and nothing of
  a tile: no layer summary, no geometry.
\<close>

theorem decode_failure_outcome:
  "adjust_matched_filter (url_lib env) (a_url args) (a_matched args) = Inr url \<Longrightarrow>
   fetch_tile (requests_get env) url (a_token args) (a_origin args) (a_debug_http args)
     = (out, err, Inr raw_tile) \<Longrightarrow>
   decode_tile (decode env) raw_tile = Inl e \<Longrightarrow>
   main_features env args =
      \<lparr>out_lines = [''Requesting tile...'', url, ''''] @ out
          @ [''Received '' @ str_nat (length raw_tile) @ '' bytes. Decoding...'', ''''],
       err_lines = err @ [''Unexpected error: '' @ error_text env e],
       exit_code = Some 1\<rparr>"
  by (rule main_decode_failure)

theorem decode_failure_outcome_witness:
  "adjust_matched_filter (url_lib (failing_env \<lparr>kind = TruncatedInput, message = ''bad tile'', offset = 3\<rparr>))
       (a_url sample_args) (a_matched sample_args)
     = Inr (''https://h/t/1/2/3?format=MVT&filters[0]='' @ matched_predicate ''true'')
   \<and> fetch_tile (requests_get (failing_env \<lparr>kind = TruncatedInput, message = ''bad tile'', offset = 3\<rparr>))
       (''https://h/t/1/2/3?format=MVT&filters[0]='' @ matched_predicate ''true'')
       (a_token sample_args) (a_origin sample_args) (a_debug_http sample_args)
     = ([], [], Inr [1, 2, 3])
   \<and> decode_tile (decode (failing_env \<lparr>kind = TruncatedInput, message = ''bad tile'', offset = 3\<rparr>))
       [1, 2, 3]
     = Inl \<lparr>kind = TruncatedInput, message = ''bad tile'', offset = 3\<rparr>
   \<and> main_features (failing_env \<lparr>kind = TruncatedInput, message = ''bad tile'', offset = 3\<rparr>)
       sample_args
     = \<lparr>out_lines = [''Requesting tile...'',
                     ''https://h/t/1/2/3?format=MVT&filters[0]='' @ matched_predicate ''true'', '''',
                     ''Received 3 bytes. Decoding...'', ''''],
        err_lines = [''Unexpected error: bad tile''],
        exit_code = Some 1\<rparr>"
proof -
  let ?e = "\<lparr>kind = TruncatedInput, message = ''bad tile'', offset = 3\<rparr>"
  have u: "adjust_matched_filter (url_lib (failing_env ?e)) (a_url sample_args) (a_matched sample_args)
     = Inr (''https://h/t/1/2/3?format=MVT&filters[0]='' @ matched_predicate ''true'')"
    using sample_url by (simp add: failing_env_def)
  have f: "fetch_tile (requests_get (failing_env ?e))
        (''https://h/t/1/2/3?format=MVT&filters[0]='' @ matched_predicate ''true'')
        (a_token sample_args) (a_origin sample_args) (a_debug_http sample_args)
      = ([], [], Inr [1, 2, 3])"
    using sample_fetch by (simp add: sample_args_def)
  have d: "decode_tile (decode (failing_env ?e)) [1, 2, 3] = Inl ?e"
    by (simp add: decode_tile_def failing_env_def)
  have t: "error_text (failing_env ?e) = message"
    by (simp add: failing_env_def)
  show ?thesis
    using decode_failure_outcome [OF u f d] u f d by (simp add: t str_nat.simps)
qed

end
